theory Spec2Isabelle
  imports Complex_Main "HOL-Library.List_Lexorder" "HOL-Library.Char_ord"
begin

section \<open>Insurance Payment Analyzer: a shallow embedding of \<open>src/index.tsx\<close>\<close>

text \<open>
  The analyzer reads billing rows, groups them by payer, procedure code, place of service and
  modifiers (optionally units), picks a proxy ("typical payment") for every group and
  classifies every line against it.  The functions below follow the source function by
  function.  Three conventions hold throughout.

  \<^item> A JavaScript number is modelled as an exact rational (\<open>number\<close>).  Every amount the
    engine handles is finite (\<open>toNum\<close> maps anything else to 0), so the model differs from
    the program only by the rounding error of binary floating point, which it leaves out.
  \<^item> A JavaScript string is modelled as a list of 8-bit characters.  The non-ASCII
    characters of the source (the en dash of two payer aliases, the em dash of the "no
    modifiers" sentinel, the arrow of one method label) are written as their UTF-8 bytes;
    white space and letter case are those of ASCII.
  \<^item> A JavaScript \<open>Map\<close> is an association list in insertion order, a plain object used as
    a dictionary is a partial function, and a \<open>TypeError\<close> is the value \<open>None\<close>.
\<close>

subsection \<open>Numbers\<close>

type_synonym number = rat

text \<open>\<open>x.toFixed(k)\<close> read back as a number: the sign is split off and the magnitude is
  rounded to \<open>k\<close> decimals, a tie going to the larger magnitude.\<close>

definition toFixed :: "nat \<Rightarrow> number \<Rightarrow> number" where
  "toFixed k x =
     (if x < 0 then - (of_int \<lfloor>(- x) * 10 ^ k + 1 / 2\<rfloor> / 10 ^ k)
      else of_int \<lfloor>x * 10 ^ k + 1 / 2\<rfloor> / 10 ^ k)"

text \<open>\<open>+(+v).toFixed(2)\<close>\<close>

definition round2 :: "number \<Rightarrow> number" where
  "round2 v = toFixed 2 v"

text \<open>\<open>Array.prototype.sort\<close> with a comparator: the sort is stable, and an element \<open>x\<close>
  goes before \<open>y\<close> when \<open>cmp x y\<close> is negative.  The model is the stable insertion sort.\<close>

fun js_insert :: "('a \<Rightarrow> 'a \<Rightarrow> number) \<Rightarrow> 'a \<Rightarrow> 'a list \<Rightarrow> 'a list" where
  "js_insert cmp x [] = [x]"
| "js_insert cmp x (y # ys) = (if cmp x y \<le> 0 then x # y # ys else y # js_insert cmp x ys)"

definition js_sort :: "('a \<Rightarrow> 'a \<Rightarrow> number) \<Rightarrow> 'a list \<Rightarrow> 'a list" where
  "js_sort cmp xs = foldr (js_insert cmp) xs []"

text \<open>\<open>d3.max\<close>: \<open>undefined\<close> on the empty array.\<close>

fun d3_max :: "number list \<Rightarrow> number option" where
  "d3_max [] = None"
| "d3_max (x # xs) = Some (fold max xs x)"

text \<open>\<open>d3.sum(items, f)\<close>\<close>

definition d3_sum :: "'a list \<Rightarrow> ('a \<Rightarrow> number) \<Rightarrow> number" where
  "d3_sum items f = foldl (\<lambda>s d. s + f d) 0 items"

text \<open>A \<open>Map\<close> from keys to arrays, filled by "create the array on the first sight of the
  key, then push": the loop over \<open>enriched\<close> in \<open>buildGroups\<close>, and \<open>d3.group\<close>.\<close>

fun bucketPush :: "'k \<Rightarrow> 'a \<Rightarrow> ('k \<times> 'a list) list \<Rightarrow> ('k \<times> 'a list) list" where
  "bucketPush k d [] = [(k, [d])]"
| "bucketPush k d ((k', ds) # bs) =
     (if k' = k then (k', ds @ [d]) # bs else (k', ds) # bucketPush k d bs)"

definition d3_group :: "'a list \<Rightarrow> ('a \<Rightarrow> 'k) \<Rightarrow> ('k \<times> 'a list) list" where
  "d3_group xs f = foldl (\<lambda>bs d. bucketPush (f d) d bs) [] xs"

text \<open>\<open>d3.rollup(xs, reduce, key)\<close>\<close>

definition d3_rollup :: "'a list \<Rightarrow> ('a list \<Rightarrow> 'v) \<Rightarrow> ('a \<Rightarrow> 'k) \<Rightarrow> ('k \<times> 'v) list" where
  "d3_rollup xs reduce f = map (\<lambda>(k, vs). (k, reduce vs)) (d3_group xs f)"

text \<open>\<open>Array.from(new Set(xs))\<close>: the first occurrence of every element, in order.\<close>

fun uniq :: "'a list \<Rightarrow> 'a list" where
  "uniq [] = []"
| "uniq (x # xs) = x # uniq (filter (\<lambda>y. y \<noteq> x) xs)"

subsection \<open>Strings\<close>

definition isSpace :: "char \<Rightarrow> bool" where
  "isSpace c \<longleftrightarrow> c \<in> set [CHR '' '', CHR 0x09, CHR 0x0A, CHR 0x0B, CHR 0x0C, CHR 0x0D]"

definition trim :: "string \<Rightarrow> string" where
  "trim s = rev (dropWhile isSpace (rev (dropWhile isSpace s)))"

definition upperChar :: "char \<Rightarrow> char" where
  "upperChar c = (if CHR ''a'' \<le> c \<and> c \<le> CHR ''z'' then char_of (of_char c - (32::nat)) else c)"

definition toUpperCase :: "string \<Rightarrow> string" where
  "toUpperCase s = map upperChar s"

text \<open>\<open>s.includes(t)\<close>\<close>

fun str_includes :: "string \<Rightarrow> string \<Rightarrow> bool" where
  "str_includes [] t = (t = [])"
| "str_includes (c # cs) t = (take (length t) (c # cs) = t \<or> str_includes cs t)"

text \<open>\<open>xs.join(sep)\<close>\<close>

fun join :: "string \<Rightarrow> string list \<Rightarrow> string" where
  "join sep [] = []"
| "join sep [x] = x"
| "join sep (x # y # ys) = x @ sep @ join sep (y # ys)"

text \<open>\<open>s.split(re)\<close> for a regular expression \<open>[...]+\<close> over one character class: the
  separators are the maximal runs of characters of the class.\<close>

function str_split :: "(char \<Rightarrow> bool) \<Rightarrow> string \<Rightarrow> string list" where
  "str_split sep [] = [[]]"
| "str_split sep (c # cs) =
     (if sep c then [] # str_split sep (dropWhile sep cs)
      else (case str_split sep cs of [] \<Rightarrow> [[c]] | p # ps \<Rightarrow> (c # p) # ps))"
  by pat_completeness auto
termination
  by (relation "measure (\<lambda>(sep, s). length s)") (auto simp: le_imp_less_Suc length_dropWhile_le)

text \<open>\<open>s.replace(/\s+/g, " ")\<close>\<close>

function collapseSpaces :: "string \<Rightarrow> string" where
  "collapseSpaces [] = []"
| "collapseSpaces (c # cs) =
     (if isSpace c then CHR '' '' # collapseSpaces (dropWhile isSpace cs)
      else c # collapseSpaces cs)"
  by pat_completeness auto
termination
  by (relation "measure length") (auto simp: le_imp_less_Suc length_dropWhile_le)

text \<open>\<open>s.replace(/\s+-\s+/g, " - ")\<close>: at a white-space character the pattern matches
  when the run of white space that starts there is followed by a hyphen and at least one
  more white-space character; the match then takes the whole second run as well.\<close>

function hyphenSpacing :: "string \<Rightarrow> string" where
  "hyphenSpacing [] = []"
| "hyphenSpacing (c # cs) =
     (if isSpace c then
        (case dropWhile isSpace cs of
           [] \<Rightarrow> c # hyphenSpacing cs
         | h # r \<Rightarrow>
             (if h = CHR ''-'' \<and> r \<noteq> [] \<and> isSpace (hd r)
              then '' - '' @ hyphenSpacing (dropWhile isSpace r)
              else c # hyphenSpacing cs))
      else c # hyphenSpacing cs)"
  by pat_completeness auto
termination
proof (relation "measure length", goal_cases)
  case 1
  show ?case by simp
next
  case (2 c cs)
  show ?case by simp
next
  case (3 c cs h r)
  have "length (dropWhile isSpace r) \<le> length r"
    by (rule length_dropWhile_le)
  moreover have "length (h # r) \<le> length cs"
    using length_dropWhile_le [of isSpace cs] 3(2) by simp
  ultimately show ?case by simp
next
  case (4 c cs h r)
  show ?case by simp
next
  case (5 c cs)
  show ?case by simp
qed

text \<open>\<open>s.replace(/\s+INC$/i, "")\<close>: without the \<open>g\<close> and \<open>m\<close> flags the pattern matches
  once, at the end of the string, and takes all the white space before the suffix.\<close>

definition stripInc :: "string \<Rightarrow> string" where
  "stripInc s =
     (let r = rev s in
      if 4 \<le> length r \<and> toUpperCase (take 3 r) = ''CNI'' \<and> isSpace (r ! 3)
      then rev (dropWhile isSpace (drop 3 r))
      else s)"

subsection \<open>The record normalizer\<close>

definition enDash :: string where
  "enDash = [CHR 0xE2, CHR 0x80, CHR 0x93]"

definition emDash :: string where
  "emDash = [CHR 0xE2, CHR 0x80, CHR 0x94]"

definition UHCTokens :: "string list" where
  "UHCTokens =
     [''UNITED HEALTH'',
      ''UNITED HEALTH CARE'',
      ''UNITED HEALTHCARE'',
      ''UHC'',
      ''UHC '' @ enDash @ '' UNITEDHEALTHCARE'',
      ''UHC-UNITEDHEALTHCARE'',
      ''UHC '' @ enDash @ '' UNITED HEALTH CARE'',
      ''UNITED HEALTH CARE INSURANCE'']"

text \<open>The argument is \<open>String(nameRaw || "")\<close>: a missing column is the empty string.\<close>

definition normalizeInsurance :: "string \<Rightarrow> string" where
  "normalizeInsurance nameRaw =
     (let name = trim nameRaw; upper = toUpperCase name in
      if list_ex (\<lambda>t. str_includes upper t) UHCTokens then ''United Health Care''
      else trim (stripInc (hyphenSpacing (collapseSpaces name))))"

definition normalizeModifiers :: "string \<Rightarrow> string" where
  "normalizeModifiers m =
     (if m = [] then emDash
      else
        (let toks = filter (\<lambda>t. t \<noteq> [])
                      (map (\<lambda>t. toUpperCase (trim t))
                         (str_split (\<lambda>c. c = CHR '','' \<or> isSpace c) m));
             uniqs = sort (uniq toks)
         in if uniqs \<noteq> [] then join ''+'' uniqs else emDash))"

subsection \<open>Rows and canonical lines\<close>

text \<open>A parsed row, as \<open>enrichRows\<close> reads it: a text column is what \<open>getVal\<close> returns
  (\<open>None\<close> when the row has no such column), a numeric column is what \<open>toNum\<close> makes of it,
  which is a finite number for every input.\<close>

record row =
  row_Insurance :: "string option"
  row_CPT :: "string option"
  row_POS :: "string option"
  row_Modifiers :: "string option"
  row_Days_or_Units :: "string option"
  row_Days_Or_Units :: "string option"
  row_Units :: "string option"
  row_Patient_Name :: "string option"
  row_Date_of_Service :: "string option"
  row_Charges :: number
  row_Insurance_Payment :: number
  row_Patient_Payment :: number
  row_Balance :: number
  row_Adjustment :: number

text \<open>\<open>x || ""\<close> and \<open>x || y\<close> on columns: a missing column and the empty string are
  both falsy.\<close>

definition orEmpty :: "string option \<Rightarrow> string" where
  "orEmpty x = (case x of None \<Rightarrow> [] | Some s \<Rightarrow> s)"

definition orElse :: "string option \<Rightarrow> string \<Rightarrow> string" where
  "orElse x y = (if orEmpty x = [] then y else orEmpty x)"

definition computeAllowed :: "row \<Rightarrow> number" where
  "computeAllowed r =
     (let ins = \<bar>row_Insurance_Payment r\<bar>;
          pat = max 0 (row_Patient_Payment r);
          bal = max 0 (row_Balance r)
      in toFixed 2 (ins + pat + bal))"

text \<open>\<open>percentDelta\<close>\<close>

definition percentDelta :: "number \<Rightarrow> number \<Rightarrow> number" where
  "percentDelta v ref = (if ref = 0 then 0 else ((v - ref) / ref) * 100)"

text \<open>The grouping attributes of a line (the object \<open>g\<close>).\<close>

record g =
  Insurance :: string
  CPT :: string
  POS :: string
  Modifiers :: string
  Units :: string

definition buildKey :: "g \<Rightarrow> string" where
  "buildKey x = Insurance x @ ''|'' @ CPT x @ ''|'' @ POS x @ ''|'' @ Modifiers x @ ''|'' @ Units x"

definition buildKeyNoUnits :: "g \<Rightarrow> string" where
  "buildKeyNoUnits x = Insurance x @ ''|'' @ CPT x @ ''|'' @ POS x @ ''|'' @ Modifiers x"

record line =
  line_row :: row
  idx :: nat
  patient :: string
  dos :: string
  allowed :: number
  insurancePaid :: number
  charges :: number
  adjustment :: number
  line_g :: g
  groupKey :: string

definition enrichRow :: "nat \<Rightarrow> row \<Rightarrow> line" where
  "enrichRow i r =
     (let x = \<lparr> Insurance = normalizeInsurance (orEmpty (row_Insurance r)),
                 CPT = trim (orEmpty (row_CPT r)),
                 POS = trim (orEmpty (row_POS r)),
                 Modifiers = normalizeModifiers (orEmpty (row_Modifiers r)),
                 Units = trim (orElse (row_Days_or_Units r)
                                (orElse (row_Days_Or_Units r) (orElse (row_Units r) ''1''))) \<rparr>
      in \<lparr> line_row = r,
           idx = i,
           patient = trim (orEmpty (row_Patient_Name r)),
           dos = trim (orEmpty (row_Date_of_Service r)),
           allowed = computeAllowed r,
           insurancePaid = \<bar>row_Insurance_Payment r\<bar>,
           charges = max 0 (row_Charges r),
           adjustment = row_Adjustment r,
           line_g = x,
           groupKey = buildKey x \<rparr>)"

definition enrichRows :: "row list \<Rightarrow> line list" where
  "enrichRows raw =
     map (\<lambda>(i, r). enrichRow i r)
       (enumerate 0 (filter (\<lambda>r. trim (orEmpty (row_CPT r)) \<noteq> []) raw))"

subsection \<open>Settings\<close>

datatype benchmark = Paid | Allowed

text \<open>A value of the override store: the store maps keys to numbers, and JSON turns a
  number that is not finite into \<open>null\<close>.\<close>

datatype override_value = Null | NaN | Num number

text \<open>The state of the component that the analysis reads.  \<open>localeCompare\<close> and \<open>fmt\<close>
  (\<open>toLocaleString\<close> with two decimals) depend on the locale of the browser and are taken
  as parameters.\<close>

record config =
  benchmark :: benchmark
  threshold :: number
  decontaminateChargesProxy :: bool
  includeUnitsInKey :: bool
  overrides :: "string \<Rightarrow> override_value option"
  localeCompare :: "string \<Rightarrow> string \<Rightarrow> number"
  fmt :: "number \<Rightarrow> string"

subsection \<open>The proxy resolver\<close>

definition metricOf :: "config \<Rightarrow> line \<Rightarrow> number" where
  "metricOf cfg d = (if benchmark cfg = Paid then insurancePaid d else allowed d)"

definition equalsCharges :: "line \<Rightarrow> bool" where
  "equalsCharges d \<longleftrightarrow> \<bar>allowed d - charges d\<bar> < 1 / 100"

text \<open>The candidate list: \<open>metricAll\<close>, narrowed when the allowed amount is the benchmark
  and the group mixes lines whose allowed amount is the charge with lines where it is not.\<close>

definition metricForProxy :: "config \<Rightarrow> line list \<Rightarrow> number list" where
  "metricForProxy cfg items =
     (let metricAll = map (metricOf cfg) items in
      if benchmark cfg = Allowed then
        (let equalsChargesFlags = map equalsCharges items;
             hasEq = list_ex (\<lambda>f. f) equalsChargesFlags;
             hasDiff = list_ex (\<lambda>f. \<not> f) equalsChargesFlags;
             narrowed =
               (if decontaminateChargesProxy cfg \<and> hasEq \<and> hasDiff
                then map (\<lambda>(f, d). allowed d) (filter (\<lambda>(f, d). \<not> f) (zip equalsChargesFlags items))
                else metricAll)
         in if length narrowed = 0 then metricAll else narrowed)
      else metricAll)"

text \<open>\<open>freq.set(v, (freq.get(v) || 0) + 1)\<close>\<close>

fun freqSet :: "number \<Rightarrow> (number \<times> nat) list \<Rightarrow> (number \<times> nat) list" where
  "freqSet v [] = [(v, 1)]"
| "freqSet v ((k, c) # es) = (if k = v then (k, c + 1) # es else (k, c) # freqSet v es)"

text \<open>The comparator \<open>(b[1] - a[1]) || (b[0] - a[0])\<close> of the ranking.\<close>

definition rankCmp :: "number \<times> nat \<Rightarrow> number \<times> nat \<Rightarrow> number" where
  "rankCmp a b =
     (if of_nat (snd b) - of_nat (snd a) \<noteq> (0::number) then of_nat (snd b) - of_nat (snd a)
      else fst b - fst a)"

definition rankedEntries :: "number list \<Rightarrow> (number \<times> nat) list" where
  "rankedEntries rounded = js_sort rankCmp (foldl (\<lambda>freq v. freqSet v freq) [] rounded)"

definition method_tie :: string where
  "method_tie = ''mode (tie'' @ [CHR 0xE2, CHR 0x86, CHR 0x92] @ ''max)''"

text \<open>Proxy selection, before any override: the pair \<open>(proxy, method)\<close>.\<close>

definition selectProxy :: "number list \<Rightarrow> number \<times> string" where
  "selectProxy candidates =
     (let n = length candidates;
          rounded = map round2 candidates
      in if n \<le> 2 then
           ((case d3_max rounded of None \<Rightarrow> 0 | Some m \<Rightarrow> m), ''max_when_few'')
         else
           (let entries = rankedEntries rounded;
                proxy = (case entries of [] \<Rightarrow> 0 | e # _ \<Rightarrow> fst e);
                topCount = (case entries of [] \<Rightarrow> 0 | e # _ \<Rightarrow> snd e);
                secondCount = (case entries of _ # e # _ \<Rightarrow> snd e | _ \<Rightarrow> 0)
            in (proxy, if topCount = secondCount then method_tie else ''mode'')))"

text \<open>The override of a group key, when the store has a number for it.\<close>

definition applyOverride :: "config \<Rightarrow> string \<Rightarrow> number \<times> string \<Rightarrow> number \<times> string" where
  "applyOverride cfg key pm =
     (case overrides cfg key of
        Some (Num v) \<Rightarrow> (toFixed 2 v, ''override'')
      | _ \<Rightarrow> pm)"

subsection \<open>The group aggregator\<close>

text \<open>The fields of a group's statistics that the classification and the audits read, and
  the frequency table.  The median, mean, minimum and maximum of the source's record are
  display values of \<open>d3\<close> and are left out.\<close>

record stat =
  key :: string
  stat_g :: g
  n :: nat
  proxy :: number
  "method" :: string
  nEqCharges :: nat
  usedDecontaminate :: bool
  topValues :: "(number \<times> nat) list"
  multiModal :: bool
  nearTie :: bool

definition keyFor :: "config \<Rightarrow> g \<Rightarrow> string" where
  "keyFor cfg x = (if includeUnitsInKey cfg then buildKey x else buildKeyNoUnits x)"

text \<open>The comparator \<open>b[1] - a[1]\<close> of the frequency table.\<close>

definition countCmp :: "number \<times> nat \<Rightarrow> number \<times> nat \<Rightarrow> number" where
  "countCmp a b = of_nat (snd b) - of_nat (snd a)"

definition topValuesOf :: "number list \<Rightarrow> (number \<times> nat) list" where
  "topValuesOf metricAll =
     js_sort countCmp (d3_rollup (map round2 metricAll) length (\<lambda>v. v))"

definition mkStat :: "config \<Rightarrow> string \<Rightarrow> line \<Rightarrow> line list \<Rightarrow> stat" where
  "mkStat cfg k sample items =
     (let metricAll = map (metricOf cfg) items;
          pm = applyOverride cfg k (selectProxy (metricForProxy cfg items));
          equalsChargesCount = length (filter equalsCharges items);
          tv = topValuesOf metricAll
      in \<lparr> key = k,
           stat_g = line_g sample,
           n = length items,
           proxy = fst pm, method = snd pm,
           nEqCharges = equalsChargesCount,
           usedDecontaminate =
             (benchmark cfg = Allowed \<and> decontaminateChargesProxy cfg \<and> equalsChargesCount > 0),
           topValues = tv,
           multiModal = (length tv > 1 \<and> snd (tv ! 0) = snd (tv ! 1)),
           nearTie = (length tv > 1 \<and> (of_nat (snd (tv ! 1)) :: number) / of_nat (snd (tv ! 0)) \<ge> 6 / 10) \<rparr>)"

text \<open>The body of the loop over the buckets.  \<open>items[0]\<close> of an empty bucket is
  \<open>undefined\<close>, and reading its \<open>g\<close> throws.\<close>

definition groupStat :: "config \<Rightarrow> string \<Rightarrow> line list \<Rightarrow> stat option" where
  "groupStat cfg k items = (case items of [] \<Rightarrow> None | sample # _ \<Rightarrow> Some (mkStat cfg k sample items))"

fun forBuckets ::
  "config \<Rightarrow> (string \<times> line list) list \<Rightarrow> (stat list \<times> (string \<times> line list \<times> stat) list) option" where
  "forBuckets cfg [] = Some ([], [])"
| "forBuckets cfg ((k, items) # rest) =
     (case groupStat cfg k items of
        None \<Rightarrow> None
      | Some st \<Rightarrow>
          (case forBuckets cfg rest of
             None \<Rightarrow> None
           | Some (stats, gm) \<Rightarrow> Some (st # stats, (k, items, st) # gm)))"

text \<open>The comparator of the final sort of the statistics.\<close>

definition statCmp :: "config \<Rightarrow> stat \<Rightarrow> stat \<Rightarrow> number" where
  "statCmp cfg a b =
     (if localeCompare cfg (Insurance (stat_g a)) (Insurance (stat_g b)) \<noteq> 0
      then localeCompare cfg (Insurance (stat_g a)) (Insurance (stat_g b))
      else localeCompare cfg (CPT (stat_g a)) (CPT (stat_g b)))"

text \<open>\<open>buildGroups\<close>: the sorted statistics and the map from a key to its lines and
  statistics.\<close>

definition buildGroups ::
  "config \<Rightarrow> line list \<Rightarrow> (stat list \<times> (string \<times> line list \<times> stat) list) option" where
  "buildGroups cfg enriched =
     (let buckets = d3_group enriched (\<lambda>d. keyFor cfg (line_g d)) in
      case forBuckets cfg buckets of
        None \<Rightarrow> None
      | Some (stats, groupsMap) \<Rightarrow> Some (js_sort (statCmp cfg) stats, groupsMap))"

subsection \<open>The deviation classifier\<close>

text \<open>A row of the issues table.  Amounts printed with \<open>toFixed\<close> are kept as the rounded
  numbers; \<open>i_ProxyHover\<close> holds the statistics that \<open>buildHover\<close> renders as text.\<close>

record issue =
  i_Patient :: string
  i_DOS :: string
  i_g :: g
  i_Charges :: number
  i_Metric :: number
  i_Proxy :: number
  i_ProxyHover :: stat
  i_DeviationPct :: number
  i_Status :: string
  i_Explanation :: string

definition classify :: "config \<Rightarrow> stat \<Rightarrow> line \<Rightarrow> issue" where
  "classify cfg st d =
     (let metric = metricOf cfg d;
          delta = percentDelta metric (proxy st);
          absDelta = \<bar>delta\<bar>;
          paid = (benchmark cfg = Paid);
          (label, reason) =
            (if absDelta > threshold cfg then
               (if delta < 0 then
                  (if paid then ''Underpaid'' else ''Underpayment'',
                   if paid
                   then ''Paid is below typical. Check missing modifier, bundling, site-of-service, or incorrect units.''
                   else ''Allowed is below typical for same group.'')
                else
                  (if paid then ''Overpaid'' else ''Overpayment'',
                   if paid
                   then ''Paid is above typical. Could be variant code, bilateral/bundle paid separately, or POS mismatch.''
                   else ''Allowed is above typical.''))
             else
               (''Within expected range'',
                if paid
                then ''Paid aligns with proxy typical payment for same payer/CPT/POS/mods/units.''
                else ''Allowed aligns with proxy contracted rate.''))
      in \<lparr> i_Patient = patient d,
           i_DOS = dos d,
           i_g = line_g d,
           i_Charges = toFixed 2 (charges d),
           i_Metric = toFixed 2 metric,
           i_Proxy = toFixed 2 (proxy st),
           i_ProxyHover = st,
           i_DeviationPct = toFixed 1 delta,
           i_Status = label,
           i_Explanation = reason \<rparr>)"

text \<open>\<open>stats.forEach\<close>: the lines of every group, looked up by the key of its statistics.
  A key that the map does not have gives \<open>undefined\<close>, whose \<open>items\<close> throws.\<close>

fun outIssues :: "config \<Rightarrow> (string \<times> line list \<times> stat) list \<Rightarrow> stat list \<Rightarrow> issue list option" where
  "outIssues cfg groupsMap [] = Some []"
| "outIssues cfg groupsMap (st # stats) =
     (case map_of groupsMap (key st) of
        None \<Rightarrow> None
      | Some (items, _) \<Rightarrow>
          (case outIssues cfg groupsMap stats of
             None \<Rightarrow> None
           | Some rest \<Rightarrow> Some (map (classify cfg st) items @ rest)))"

definition issueCmp :: "issue \<Rightarrow> issue \<Rightarrow> number" where
  "issueCmp a b =
     (let aBad = (i_Status a \<noteq> ''Within expected range'');
          bBad = (i_Status b \<noteq> ''Within expected range'')
      in if aBad \<noteq> bBad then (if aBad then - 1 else 1)
         else \<bar>i_DeviationPct b\<bar> - \<bar>i_DeviationPct a\<bar>)"

subsection \<open>The audit detectors\<close>

record denial =
  d_Patient :: string
  d_DOS :: string
  d_g :: g
  d_Charges :: number
  d_InsurancePaid :: number
  d_Adjustment :: number

text \<open>The predicate of the filter that selects the denials.\<close>

definition isDenial :: "config \<Rightarrow> line \<Rightarrow> bool" where
  "isDenial cfg d =
     (let bal = max 0 (row_Balance (line_row d));
          approxWriteOff =
            (charges d > 0 \<and> \<bar>adjustment d + charges d\<bar> < 1 / 100 \<and> insurancePaid d = 0 \<and> bal = 0);
          metricZero = (metricOf cfg d = 0 \<and> charges d > 0)
      in approxWriteOff \<or> metricZero)"

definition denialEntry :: "line \<Rightarrow> denial" where
  "denialEntry d =
     \<lparr> d_Patient = patient d,
       d_DOS = dos d,
       d_g = line_g d,
       d_Charges = toFixed 2 (charges d),
       d_InsurancePaid = toFixed 2 (insurancePaid d),
       d_Adjustment = toFixed 2 (adjustment d) \<rparr>"

definition denials :: "config \<Rightarrow> line list \<Rightarrow> denial list" where
  "denials cfg enr = map denialEntry (filter (isDenial cfg) enr)"

text \<open>The aggregate of one patient, before it is printed.\<close>

record patient_aggregate =
  Patient :: string
  InsuranceList :: string
  TotalCharges :: number
  TotalInsurancePaid :: number
  TotalAllowed :: number
  TotalBalance :: number
  AllZeroPaid :: bool
  UnpaidGap :: number

definition patientAggregate :: "config \<Rightarrow> string \<Rightarrow> line list \<Rightarrow> patient_aggregate" where
  "patientAggregate cfg p items =
     (let totalCharges = d3_sum items charges;
          totalInsPaid = d3_sum items insurancePaid;
          totalBalance = d3_sum items (\<lambda>d. max 0 (row_Balance (line_row d)));
          totalAllowed = d3_sum items allowed
      in \<lparr> Patient = p,
           InsuranceList = join '', '' (uniq (map (\<lambda>d. Insurance (line_g d)) items)),
           TotalCharges = totalCharges,
           TotalInsurancePaid = totalInsPaid,
           TotalAllowed = totalAllowed,
           TotalBalance = totalBalance,
           AllZeroPaid = (totalInsPaid = 0 \<and> totalCharges > 0),
           UnpaidGap = max 0 ((if benchmark cfg = Paid then totalInsPaid else totalAllowed) - totalInsPaid) \<rparr>)"

definition gapCmp :: "patient_aggregate \<Rightarrow> patient_aggregate \<Rightarrow> number" where
  "gapCmp a b = UnpaidGap b - UnpaidGap a"

text \<open>The aggregates that qualify, in the order of the output.\<close>

definition unpaidAggregates :: "config \<Rightarrow> line list \<Rightarrow> patient_aggregate list" where
  "unpaidAggregates cfg enr =
     js_sort gapCmp
       (filter AllZeroPaid
          (map (\<lambda>(p, items). patientAggregate cfg p items) (d3_group enr patient)))"

record unpaid_patient =
  u_Patient :: string
  u_Insurances :: string
  u_TotalCharges :: string
  u_TotalAllowed :: string
  u_TotalInsurancePaid :: string
  u_TotalBalance :: string
  u_UnpaidGap :: string

definition unpaidEntry :: "config \<Rightarrow> patient_aggregate \<Rightarrow> unpaid_patient" where
  "unpaidEntry cfg p =
     \<lparr> u_Patient = Patient p,
       u_Insurances = InsuranceList p,
       u_TotalCharges = fmt cfg (TotalCharges p),
       u_TotalAllowed = fmt cfg (TotalAllowed p),
       u_TotalInsurancePaid = fmt cfg (TotalInsurancePaid p),
       u_TotalBalance = fmt cfg (TotalBalance p),
       u_UnpaidGap = fmt cfg (UnpaidGap p) \<rparr>"

definition unpaidPatients :: "config \<Rightarrow> line list \<Rightarrow> unpaid_patient list" where
  "unpaidPatients cfg enr = map (unpaidEntry cfg) (unpaidAggregates cfg enr)"

subsection \<open>The main analysis\<close>

text \<open>The collections of the analysis that the properties below are about; the totals and
  the proxy audits are computed from the same statistics and are left out.\<close>

record analysis =
  issues :: "issue list"
  groupedStats :: "stat list"
  a_denials :: "denial list"
  a_unpaidPatients :: "unpaid_patient list"
  groupsMap :: "(string \<times> line list \<times> stat) list"

definition analyze :: "config \<Rightarrow> row list \<Rightarrow> analysis option" where
  "analyze cfg rows =
     (if rows = [] then
        Some \<lparr> issues = [], groupedStats = [], a_denials = [], a_unpaidPatients = [], groupsMap = [] \<rparr>
      else
        (let enriched = enrichRows rows in
         case buildGroups cfg enriched of
           None \<Rightarrow> None
         | Some (stats, gm) \<Rightarrow>
             (case outIssues cfg gm stats of
                None \<Rightarrow> None
              | Some out \<Rightarrow>
                  (let enr = enrichRows rows in
                   Some \<lparr> issues = js_sort issueCmp out,
                          groupedStats = stats,
                          a_denials = denials cfg enr,
                          a_unpaidPatients = unpaidPatients cfg enr,
                          groupsMap = gm \<rparr>))))"

subsection \<open>Notions used to state the properties, and example data\<close>

text \<open>\<open>a\<close> may stand before \<open>b\<close> in a ranking by frequency descending, then value
  descending.\<close>

definition ranksBefore :: "number \<times> nat \<Rightarrow> number \<times> nat \<Rightarrow> bool" where
  "ranksBefore a b \<longleftrightarrow> snd b < snd a \<or> (snd b = snd a \<and> fst b \<le> fst a)"

text \<open>\<open>a\<close> may stand before \<open>b\<close> in a ranking by frequency descending alone.\<close>

definition freqBefore :: "number \<times> nat \<Rightarrow> number \<times> nat \<Rightarrow> bool" where
  "freqBefore a b \<longleftrightarrow> snd b \<le> snd a"

text \<open>The buckets of \<open>buildGroups\<close>, and the statistics that its loop computes for a
  bucket; a bucket is never empty, and its first line is the sample.\<close>

definition bucketsOf :: "config \<Rightarrow> line list \<Rightarrow> (string \<times> line list) list" where
  "bucketsOf cfg enriched = d3_group enriched (\<lambda>d. keyFor cfg (line_g d))"

definition statOf :: "config \<Rightarrow> string \<times> line list \<Rightarrow> stat" where
  "statOf cfg b = mkStat cfg (fst b) (hd (snd b)) (snd b)"

text \<open>A row of the examples: place of service 11, no modifiers, one unit.\<close>

definition exampleRow ::
  "string \<Rightarrow> string \<Rightarrow> string \<Rightarrow> number \<Rightarrow> number \<Rightarrow> number \<Rightarrow> number \<Rightarrow> number \<Rightarrow> row" where
  "exampleRow payer cpt pat ch ins pp bal adj =
     \<lparr> row_Insurance = Some payer, row_CPT = Some cpt, row_POS = Some ''11'',
       row_Modifiers = None, row_Days_or_Units = None, row_Days_Or_Units = None,
       row_Units = Some ''1'', row_Patient_Name = Some pat, row_Date_of_Service = None,
       row_Charges = ch, row_Insurance_Payment = ins, row_Patient_Payment = pp,
       row_Balance = bal, row_Adjustment = adj \<rparr>"

text \<open>Settings of the examples: threshold 10, decontamination on, units not in the key, no
  overrides.\<close>

definition exampleConfig :: "benchmark \<Rightarrow> config" where
  "exampleConfig b =
     \<lparr> benchmark = b, threshold = 10, decontaminateChargesProxy = True,
       includeUnitsInKey = False, overrides = Map.empty,
       localeCompare = (\<lambda>a b. 0), fmt = (\<lambda>x. []) \<rparr>"

text \<open>Two lines whose allowed amount is the charge, two where it is not.\<close>

definition mixedRows :: "row list" where
  "mixedRows =
     [exampleRow ''Aetna'' ''99213'' ''P1'' 200 200 0 0 0,
      exampleRow ''Aetna'' ''99213'' ''P2'' 200 200 0 0 0,
      exampleRow ''Aetna'' ''99213'' ''P3'' 200 120 0 0 (- 80),
      exampleRow ''Aetna'' ''99213'' ''P4'' 200 130 0 0 (- 70)]"

text \<open>Two lines of one payer and procedure, paid 1 and 2.\<close>

definition tieRows :: "row list" where
  "tieRows =
     [exampleRow ''Aetna'' ''99213'' ''P1'' 10 1 0 0 0,
      exampleRow ''Aetna'' ''99213'' ''P2'' 10 2 0 0 0]"



text \<open>Two rows whose payer and procedure code differ and whose keys are the same.\<close>

definition keyRowA :: row where
  "keyRowA = exampleRow ''Acme|X'' ''1'' ''P1'' 100 80 0 0 (- 20)"

definition keyRowB :: row where
  "keyRowB = exampleRow ''Acme'' ''X|1'' ''P2'' 100 60 0 0 (- 40)"

text \<open>The key of the group of the example rows, and settings with an override for it.\<close>

definition overrideKey :: string where
  "overrideKey = ''Aetna|99213|11|'' @ emDash"

definition overrideConfig :: config where
  "overrideConfig = (exampleConfig Paid) \<lparr> overrides := [overrideKey \<mapsto> Num 45] \<rparr>"

text \<open>Three lines that the insurer did not pay and one that it paid: the proxy of the
  group is 0.\<close>

definition zeroRows :: "row list" where
  "zeroRows =
     [exampleRow ''Aetna'' ''99213'' ''P1'' 200 0 0 0 (- 200),
      exampleRow ''Aetna'' ''99213'' ''P2'' 200 0 0 0 (- 200),
      exampleRow ''Aetna'' ''99213'' ''P3'' 200 0 0 0 (- 200),
      exampleRow ''Aetna'' ''99213'' ''P4'' 200 50 0 0 (- 150)]"





section \<open>Properties\<close>

subsection \<open>Sorting\<close>

lemma set_js_insert: "set (js_insert cmp x xs) = insert x (set xs)"
  by (induction xs) auto

lemma js_sort_Nil: "js_sort cmp [] = []"
  by (simp add: js_sort_def)

lemma js_sort_Cons: "js_sort cmp (x # xs) = js_insert cmp x (js_sort cmp xs)"
  by (simp add: js_sort_def)

lemma set_js_sort: "set (js_sort cmp xs) = set xs"
  by (induction xs) (simp_all add: js_sort_Nil js_sort_Cons set_js_insert)

lemma sorted_js_insert:
  assumes tr: "\<And>a b c. cmp a b \<le> 0 \<Longrightarrow> cmp b c \<le> 0 \<Longrightarrow> cmp a c \<le> 0"
    and tot: "\<And>a b. cmp a b \<le> 0 \<or> cmp b a \<le> 0"
    and srt: "sorted_wrt (\<lambda>a b. cmp a b \<le> 0) xs"
  shows "sorted_wrt (\<lambda>a b. cmp a b \<le> 0) (js_insert cmp x xs)"
  using srt
proof (induction xs)
  case Nil
  show ?case by simp
next
  case (Cons y ys)
  show ?case
  proof (cases "cmp x y \<le> 0")
    case True
    have "\<forall>z\<in>set ys. cmp x z \<le> 0"
      using Cons.prems True tr by auto
    with True Cons.prems show ?thesis by simp
  next
    case False
    then have "cmp y x \<le> 0" using tot [of x y] by simp
    with False Cons show ?thesis by (auto simp: set_js_insert)
  qed
qed

lemma sorted_js_sort:
  assumes tr: "\<And>a b c. cmp a b \<le> 0 \<Longrightarrow> cmp b c \<le> 0 \<Longrightarrow> cmp a c \<le> 0"
    and tot: "\<And>a b. cmp a b \<le> 0 \<or> cmp b a \<le> 0"
  shows "sorted_wrt (\<lambda>a b. cmp a b \<le> 0) (js_sort cmp xs)"
proof (induction xs)
  case Nil
  show ?case by (simp add: js_sort_Nil)
next
  case (Cons x xs)
  show ?case
    unfolding js_sort_Cons
    by (rule sorted_js_insert [OF tr tot Cons.IH])
qed

lemma filter_js_insert:
  assumes "\<And>a b. P a \<Longrightarrow> P b \<Longrightarrow> cmp a b \<le> 0"
  shows "filter P (js_insert cmp x xs) = (if P x then x # filter P xs else filter P xs)"
  using assms by (induction xs) auto

lemma filter_js_sort:
  assumes "\<And>a b. P a \<Longrightarrow> P b \<Longrightarrow> cmp a b \<le> 0"
  shows "filter P (js_sort cmp xs) = filter P xs"
  by (induction xs) (simp_all add: js_sort_Nil js_sort_Cons filter_js_insert [of P cmp, OF assms])

subsection \<open>Grouping\<close>

lemma d3_group_snoc: "d3_group (xs @ [d]) f = bucketPush (f d) d (d3_group xs f)"
  by (simp add: d3_group_def)

lemma map_fst_bucketPush:
  "map fst (bucketPush k d bs) = (if k \<in> fst ` set bs then map fst bs else map fst bs @ [k])"
proof (induction bs)
  case Nil
  show ?case by simp
next
  case (Cons b bs)
  obtain k' ds where b: "b = (k', ds)" by (cases b)
  show ?case using Cons.IH by (auto simp: b)
qed

lemma map_of_bucketPush:
  "map_of (bucketPush k d bs) =
     (map_of bs)(k \<mapsto> (case map_of bs k of None \<Rightarrow> [d] | Some ds \<Rightarrow> ds @ [d]))"
  by (induction bs) (auto simp: fun_eq_iff)

lemma uniq_set: "set (uniq xs) = set xs"
  by (induction xs rule: uniq.induct) auto

lemma uniq_snoc: "uniq (xs @ [k]) = (if k \<in> set xs then uniq xs else uniq xs @ [k])"
  by (induction xs rule: uniq.induct) auto

lemma distinct_uniq: "distinct (uniq xs)"
  by (induction xs rule: uniq.induct) (auto simp: uniq_set)

lemma map_fst_d3_group: "map fst (d3_group xs f) = uniq (map f xs)"
proof (induction xs rule: rev_induct)
  case Nil
  show ?case by (simp add: d3_group_def)
next
  case (snoc d xs)
  have "fst ` set (d3_group xs f) = f ` set xs"
    using snoc.IH uniq_set [of "map f xs"] by (metis set_map)
  with snoc.IH show ?case
    by (simp add: d3_group_snoc map_fst_bucketPush uniq_snoc)
qed

lemma distinct_d3_group: "distinct (map fst (d3_group xs f))"
  by (simp add: map_fst_d3_group distinct_uniq)

lemma map_of_d3_group:
  "map_of (d3_group xs f) k = (if k \<in> f ` set xs then Some (filter (\<lambda>d. f d = k) xs) else None)"
proof (induction xs rule: rev_induct)
  case Nil
  show ?case by (simp add: d3_group_def)
next
  case (snoc d xs)
  have "filter (\<lambda>da. f da = f d) xs = []" if "f d \<notin> f ` set xs"
    using that by (auto simp: filter_empty_conv) (metis imageI)
  with snoc show ?case
    by (auto simp: d3_group_snoc map_of_bucketPush)
qed

lemma d3_group_member:
  "(k, items) \<in> set (d3_group xs f) \<longleftrightarrow> k \<in> f ` set xs \<and> items = filter (\<lambda>d. f d = k) xs"
proof -
  have "(k, items) \<in> set (d3_group xs f) \<longleftrightarrow> map_of (d3_group xs f) k = Some items"
    using distinct_d3_group [of xs f] by simp
  then show ?thesis by (auto simp: map_of_d3_group)
qed

lemma assoc_list_rebuild:
  "distinct (map fst xs) \<Longrightarrow> map (\<lambda>k. (k, the (map_of xs k))) (map fst xs) = xs"
proof (induction xs)
  case Nil
  show ?case by simp
next
  case (Cons a xs)
  have "map (\<lambda>k. (k, the (map_of (a # xs) k))) (map fst xs) =
        map (\<lambda>k. (k, the (map_of xs k))) (map fst xs)"
    using Cons.prems by (intro map_cong) (auto simp: image_iff)
  with Cons show ?case by (cases a) simp
qed

lemma d3_group_eq:
  "d3_group xs f = map (\<lambda>k. (k, filter (\<lambda>d. f d = k) xs)) (uniq (map f xs))"
proof -
  have "d3_group xs f = map (\<lambda>k. (k, the (map_of (d3_group xs f) k))) (map fst (d3_group xs f))"
    using assoc_list_rebuild [OF distinct_d3_group [of xs f]] by simp
  also have "\<dots> = map (\<lambda>k. (k, filter (\<lambda>d. f d = k) xs)) (uniq (map f xs))"
    unfolding map_fst_d3_group
    by (rule map_cong) (auto simp: map_of_d3_group uniq_set)
  finally show ?thesis .
qed

subsection \<open>Frequencies\<close>






lemma d3_rollup_length:
  "d3_rollup xs length (\<lambda>v. v) = map (\<lambda>v. (v, count_list xs v)) (uniq xs)"
proof -
  have "length (filter (\<lambda>d. d = k) xs) = count_list xs k" for k
    by (induction xs) auto
  then show ?thesis
    by (simp add: d3_rollup_def d3_group_eq)
qed

subsection \<open>Ranking\<close>










subsection \<open>The candidate list\<close>








subsection \<open>The groups\<close>

lemma bucketsOf_member:
  "(k, items) \<in> set (bucketsOf cfg enriched) \<longleftrightarrow>
     k \<in> (\<lambda>d. keyFor cfg (line_g d)) ` set enriched
     \<and> items = filter (\<lambda>d. keyFor cfg (line_g d) = k) enriched"
  by (simp add: bucketsOf_def d3_group_member)

lemma bucketsOf_nonempty: "(k, items) \<in> set (bucketsOf cfg enriched) \<Longrightarrow> items \<noteq> []"
  by (auto simp: bucketsOf_member filter_empty_conv)

lemma bucketsOf_key:
  "(k, items) \<in> set (bucketsOf cfg enriched) \<Longrightarrow> d \<in> set items \<Longrightarrow> keyFor cfg (line_g d) = k"
  by (auto simp: bucketsOf_member)

lemma bucketsOf_covers:
  "d \<in> set enriched \<Longrightarrow>
     \<exists>items. (keyFor cfg (line_g d), items) \<in> set (bucketsOf cfg enriched) \<and> d \<in> set items"
  by (auto simp: bucketsOf_member)

lemma distinct_bucketsOf: "distinct (map fst (bucketsOf cfg enriched))"
  by (simp add: bucketsOf_def distinct_d3_group)

lemma key_mkStat: "key (mkStat cfg k sample items) = k"
  by (simp add: mkStat_def Let_def)

lemma key_statOf: "key (statOf cfg b) = fst b"
  by (simp add: statOf_def key_mkStat)

lemma forBuckets_eq:
  "\<forall>b\<in>set bs. snd b \<noteq> [] \<Longrightarrow>
     forBuckets cfg bs =
       Some (map (statOf cfg) bs, map (\<lambda>b. (fst b, snd b, statOf cfg b)) bs)"
proof (induction bs)
  case Nil
  show ?case by simp
next
  case (Cons b bs)
  obtain k items where b: "b = (k, items)" by (cases b)
  from Cons.prems b obtain sample rest where items: "items = sample # rest"
    by (cases items) auto
  from Cons show ?case
    by (simp add: b items groupStat_def statOf_def)
qed

lemma buildGroups_eq:
  "buildGroups cfg enriched =
     Some (js_sort (statCmp cfg) (map (statOf cfg) (bucketsOf cfg enriched)),
           map (\<lambda>b. (fst b, snd b, statOf cfg b)) (bucketsOf cfg enriched))"
proof -
  have "\<forall>b\<in>set (bucketsOf cfg enriched). snd b \<noteq> []"
    using bucketsOf_nonempty by (metis prod.collapse)
  from forBuckets_eq [OF this] show ?thesis
    by (simp add: buildGroups_def bucketsOf_def [symmetric])
qed

lemma map_of_groupsMap:
  assumes "b \<in> set bs" and "distinct (map fst bs)"
  shows "map_of (map (\<lambda>b. (fst b, snd b, f b)) bs) (fst b) = Some (snd b, f b)"
proof -
  have "distinct (map fst (map (\<lambda>b. (fst b, snd b, f b)) bs))"
    using assms(2) by (simp add: comp_def)
  moreover have "(fst b, snd b, f b) \<in> set (map (\<lambda>b. (fst b, snd b, f b)) bs)"
    using assms(1) by auto
  ultimately show ?thesis
    by (rule map_of_is_SomeI)
qed

lemma outIssues_eq:
  assumes "distinct (map fst bs)" and "set sts \<subseteq> set bs"
  shows "outIssues cfg (map (\<lambda>b. (fst b, snd b, statOf cfg b)) bs) (map (statOf cfg) sts) =
           Some (concat (map (\<lambda>b. map (classify cfg (statOf cfg b)) (snd b)) sts))"
  using assms(2)
proof (induction sts)
  case Nil
  show ?case by simp
next
  case (Cons b sts)
  have "map_of (map (\<lambda>b. (fst b, snd b, statOf cfg b)) bs) (fst b) = Some (snd b, statOf cfg b)"
    using Cons.prems assms(1) by (intro map_of_groupsMap) auto
  with Cons show ?case
    by (simp add: key_statOf)
qed

lemma js_sort_map_ex:
  "\<exists>ys. js_sort cmp (map f xs) = map f ys \<and> set ys = set xs"
proof (induction xs)
  case Nil
  show ?case by (simp add: js_sort_Nil)
next
  case (Cons x xs)
  then obtain ys where ys: "js_sort cmp (map f xs) = map f ys" "set ys = set xs" by blast
  have "\<exists>zs. js_insert cmp (f x) (map f ys) = map f zs \<and> set zs = insert x (set ys)"
  proof (induction ys)
    case Nil
    show ?case by (rule exI [of _ "[x]"]) simp
  next
    case (Cons y ys)
    then obtain zs where zs: "js_insert cmp (f x) (map f ys) = map f zs" "set zs = insert x (set ys)"
      by blast
    show ?case
    proof (cases "cmp (f x) (f y) \<le> 0")
      case True
      then have "js_insert cmp (f x) (map f (y # ys)) = map f (x # y # ys)" by simp
      moreover have "set (x # y # ys) = insert x (set (y # ys))" by simp
      ultimately show ?thesis by blast
    next
      case False
      then have "js_insert cmp (f x) (map f (y # ys)) = map f (y # zs)" using zs by simp
      moreover have "set (y # zs) = insert x (set (y # ys))" using zs by auto
      ultimately show ?thesis by blast
    qed
  qed
  with ys show ?case by (auto simp: js_sort_Cons)
qed

text \<open>The analysis returns, and its collections are those of the buckets.\<close>

lemma analyze_unfold:
  assumes "rows \<noteq> []"
    and "buildGroups cfg (enrichRows rows) = Some (stats, gm)"
    and "outIssues cfg gm stats = Some out"
  shows "analyze cfg rows =
     Some \<lparr> issues = js_sort issueCmp out, groupedStats = stats,
            a_denials = denials cfg (enrichRows rows),
            a_unpaidPatients = unpaidPatients cfg (enrichRows rows), groupsMap = gm \<rparr>"
  using assms by (simp add: analyze_def Let_def)

lemma analyze_eq:
  assumes "rows \<noteq> []"
  shows "\<exists>a sts. analyze cfg rows = Some a
          \<and> set sts = set (bucketsOf cfg (enrichRows rows))
          \<and> groupedStats a = map (statOf cfg) sts
          \<and> groupedStats a = js_sort (statCmp cfg) (map (statOf cfg) (bucketsOf cfg (enrichRows rows)))
          \<and> groupsMap a = map (\<lambda>b. (fst b, snd b, statOf cfg b)) (bucketsOf cfg (enrichRows rows))
          \<and> issues a =
              js_sort issueCmp (concat (map (\<lambda>b. map (classify cfg (statOf cfg b)) (snd b)) sts))
          \<and> a_denials a = denials cfg (enrichRows rows)
          \<and> a_unpaidPatients a = unpaidPatients cfg (enrichRows rows)"
proof -
  let ?bs = "bucketsOf cfg (enrichRows rows)"
  obtain sts where sts: "js_sort (statCmp cfg) (map (statOf cfg) ?bs) = map (statOf cfg) sts"
    "set sts = set ?bs"
    using js_sort_map_ex [of "statCmp cfg" "statOf cfg" ?bs] by blast
  have out: "outIssues cfg (map (\<lambda>b. (fst b, snd b, statOf cfg b)) ?bs) (map (statOf cfg) sts) =
           Some (concat (map (\<lambda>b. map (classify cfg (statOf cfg b)) (snd b)) sts))"
    using sts(2) by (intro outIssues_eq distinct_bucketsOf) simp
  have bg: "buildGroups cfg (enrichRows rows) =
      Some (map (statOf cfg) sts, map (\<lambda>b. (fst b, snd b, statOf cfg b)) ?bs)"
    using sts(1) by (simp add: buildGroups_eq)
  let ?a = "\<lparr> issues = js_sort issueCmp (concat (map (\<lambda>b. map (classify cfg (statOf cfg b)) (snd b)) sts)),
              groupedStats = map (statOf cfg) sts,
              a_denials = denials cfg (enrichRows rows),
              a_unpaidPatients = unpaidPatients cfg (enrichRows rows),
              groupsMap = map (\<lambda>b. (fst b, snd b, statOf cfg b)) ?bs \<rparr>"
  have an: "analyze cfg rows = Some ?a"
    using assms bg out by (rule analyze_unfold)
  show ?thesis
  proof (intro exI conjI)
    show "analyze cfg rows = Some ?a" by (rule an)
    show "set sts = set ?bs" by (rule sts(2))
    show "groupedStats ?a = js_sort (statCmp cfg) (map (statOf cfg) ?bs)"
      using sts(1) by simp
  qed simp_all
qed

lemma analyze_Nil:
  "analyze cfg [] =
     Some \<lparr> issues = [], groupedStats = [], a_denials = [], a_unpaidPatients = [], groupsMap = [] \<rparr>"
  by (simp add: analyze_def)

subsection \<open>Rounding\<close>

lemma floor_int_half: "\<lfloor>(of_int m :: rat) + 1 / 2\<rfloor> = m"
  by (rule floor_unique) auto

lemma floor_half: "\<lfloor>1 / 2 :: rat\<rfloor> = 0"
  using floor_int_half [of 0] by simp

lemma toFixed_of_int_div:
  "0 \<le> m \<Longrightarrow> toFixed k (of_int m / 10 ^ k) = of_int m / 10 ^ k"
proof -
  assume m: "0 \<le> m"
  have "\<not> (of_int m / 10 ^ k :: rat) < 0" using m by (simp add: not_less)
  moreover have "(of_int m / 10 ^ k :: rat) * 10 ^ k = of_int m" by simp
  ultimately show ?thesis
    by (simp add: toFixed_def floor_int_half)
qed

lemma toFixed_neg_of_int_div:
  "0 \<le> m \<Longrightarrow> toFixed k (- (of_int m / 10 ^ k)) = - (of_int m / 10 ^ k)"
proof (cases "m = 0")
  case True
  then show ?thesis by (simp add: toFixed_def floor_half)
next
  case False
  assume "0 \<le> m"
  with False have m: "0 < m" by simp
  have "(- (of_int m / 10 ^ k) :: rat) < 0" using m by simp
  moreover have "(of_int m / 10 ^ k :: rat) * 10 ^ k = of_int m" by simp
  ultimately show ?thesis
    by (simp add: toFixed_def floor_int_half)
qed

lemma toFixed_idem: "toFixed k (toFixed k x) = toFixed k x"
proof (cases "x < 0")
  case True
  have "0 \<le> (- x) * 10 ^ k" using True by (intro mult_nonneg_nonneg) simp_all
  then have "0 \<le> (- x) * 10 ^ k + 1 / 2" by simp
  then have "0 \<le> \<lfloor>(- x) * 10 ^ k + 1 / 2\<rfloor>" by (simp only: zero_le_floor)
  from toFixed_neg_of_int_div [OF this] True show ?thesis
    by (simp add: toFixed_def)
next
  case False
  have "0 \<le> x * 10 ^ k" using False by (intro mult_nonneg_nonneg) simp_all
  then have "0 \<le> x * 10 ^ k + 1 / 2" by simp
  then have "0 \<le> \<lfloor>x * 10 ^ k + 1 / 2\<rfloor>" by (simp only: zero_le_floor)
  from toFixed_of_int_div [OF this] False show ?thesis
    by (simp add: toFixed_def)
qed

lemma toFixed_zero: "toFixed k 0 = 0"
  by (simp add: toFixed_def floor_half)

subsection \<open>The analysis as a whole\<close>

lemma analyze_spec:
  "\<exists>a. analyze cfg rows = Some a
      \<and> set (issues a) =
          {classify cfg (statOf cfg (k, items)) d | k items d.
             (k, items) \<in> set (bucketsOf cfg (enrichRows rows)) \<and> d \<in> set items}
      \<and> set (groupedStats a) = statOf cfg ` set (bucketsOf cfg (enrichRows rows))
      \<and> groupedStats a = js_sort (statCmp cfg) (map (statOf cfg) (bucketsOf cfg (enrichRows rows)))
      \<and> groupsMap a = map (\<lambda>b. (fst b, snd b, statOf cfg b)) (bucketsOf cfg (enrichRows rows))
      \<and> a_denials a = denials cfg (enrichRows rows)
      \<and> a_unpaidPatients a = unpaidPatients cfg (enrichRows rows)"
proof (cases "rows = []")
  case True
  have "enrichRows [] = []" by (simp add: enrichRows_def)
  then show ?thesis
    using True
    by (simp add: analyze_Nil bucketsOf_def d3_group_def denials_def unpaidPatients_def
        unpaidAggregates_def js_sort_Nil)
next
  case False
  from analyze_eq [OF False, of cfg] obtain a sts where a: "analyze cfg rows = Some a"
    "set sts = set (bucketsOf cfg (enrichRows rows))"
    "groupedStats a = map (statOf cfg) sts"
    "groupsMap a = map (\<lambda>b. (fst b, snd b, statOf cfg b)) (bucketsOf cfg (enrichRows rows))"
    "issues a = js_sort issueCmp (concat (map (\<lambda>b. map (classify cfg (statOf cfg b)) (snd b)) sts))"
    "a_denials a = denials cfg (enrichRows rows)"
    "a_unpaidPatients a = unpaidPatients cfg (enrichRows rows)"
    "groupedStats a = js_sort (statCmp cfg) (map (statOf cfg) (bucketsOf cfg (enrichRows rows)))"
    by blast
  have "set (issues a) =
          {classify cfg (statOf cfg (k, items)) d | k items d.
             (k, items) \<in> set (bucketsOf cfg (enrichRows rows)) \<and> d \<in> set items}"
  proof -
    have "set (issues a) = (\<Union>b\<in>set sts. classify cfg (statOf cfg b) ` set (snd b))"
      unfolding a(5) set_js_sort by simp
    also have "\<dots> = (\<Union>b\<in>set (bucketsOf cfg (enrichRows rows)). classify cfg (statOf cfg b) ` set (snd b))"
      unfolding a(2) ..
    also have "\<dots> = {classify cfg (statOf cfg (k, items)) d | k items d.
             (k, items) \<in> set (bucketsOf cfg (enrichRows rows)) \<and> d \<in> set items}"
      by (rule set_eqI) (simp add: image_iff Bex_def, blast)
    finally show ?thesis .
  qed
  moreover have "set (groupedStats a) = statOf cfg ` set (bucketsOf cfg (enrichRows rows))"
    using a(2,3) by simp
  ultimately show ?thesis using a(1,4,6,7,8) by blast
qed

text \<open>An issue whose grouping attributes give the key of some group's statistics was
  classified against these statistics.\<close>

lemma issue_of_group:
  assumes "(k, items) \<in> set (bucketsOf cfg enriched)"
    and "(k', items') \<in> set (bucketsOf cfg enriched)" and "d \<in> set items'"
    and "keyFor cfg (i_g (classify cfg (statOf cfg (k', items')) d)) = key (statOf cfg (k, items))"
  shows "statOf cfg (k', items') = statOf cfg (k, items)"
proof -
  have "i_g (classify cfg (statOf cfg (k', items')) d) = line_g d"
    by (simp add: classify_def Let_def split: prod.splits)
  then have "keyFor cfg (line_g d) = k"
    using assms(4) by (simp add: key_statOf)
  moreover have "keyFor cfg (line_g d) = k'"
    using assms(2,3) by (rule bucketsOf_key)
  ultimately have "k' = k" by simp
  then have "items' = items"
    using assms(1,2) by (simp add: bucketsOf_member)
  with \<open>k' = k\<close> show ?thesis by simp
qed

lemma classify_fields:
  "i_ProxyHover (classify cfg st d) = st"
  "i_Proxy (classify cfg st d) = toFixed 2 (proxy st)"
  "i_g (classify cfg st d) = line_g d"
  "i_DeviationPct (classify cfg st d) = toFixed 1 (percentDelta (metricOf cfg d) (proxy st))"
  by (simp_all add: classify_def Let_def split: prod.splits)

lemma classify_zero_proxy:
  assumes "0 \<le> threshold cfg" and "proxy st = 0"
  shows "i_DeviationPct (classify cfg st d) = 0"
    and "i_Status (classify cfg st d) = ''Within expected range''"
  using assms by (simp_all add: classify_def Let_def percentDelta_def toFixed_zero)

lemma statOf_override:
  assumes "overrides cfg k = Some (Num v)"
  shows "proxy (statOf cfg (k, items)) = toFixed 2 v"
    and "method (statOf cfg (k, items)) = ''override''"
  using assms by (simp_all add: statOf_def mkStat_def Let_def applyOverride_def)


text \<open>
  Claim C2.  When the override store has a number \<open>v\<close> for the key \<open>K\<close>, the analysis
  returns, the statistics of the group with key \<open>K\<close> have the proxy \<open>v\<close> rounded to cents
  and the method \<open>override\<close>, whatever the lines of the group are, and so does every issue
  whose grouping attributes give the key \<open>K\<close>.
\<close>

theorem C2_override_precedence:
  assumes "overrides cfg K = Some (Num v)"
  shows "\<exists>a. analyze cfg rows = Some a
           \<and> (\<forall>st\<in>set (groupedStats a). key st = K \<longrightarrow>
                 proxy st = toFixed 2 v \<and> method st = ''override'')
           \<and> (\<forall>i\<in>set (issues a). keyFor cfg (i_g i) = K \<longrightarrow>
                 i_Proxy i = toFixed 2 v \<and> method (i_ProxyHover i) = ''override'')"
proof -
  from analyze_spec [of cfg rows] obtain a where a: "analyze cfg rows = Some a"
    "set (issues a) =
       {classify cfg (statOf cfg (k, items)) d | k items d.
          (k, items) \<in> set (bucketsOf cfg (enrichRows rows)) \<and> d \<in> set items}"
    "set (groupedStats a) = statOf cfg ` set (bucketsOf cfg (enrichRows rows))"
    by blast
  have s: "proxy st = toFixed 2 v \<and> method st = ''override''"
    if "st \<in> set (groupedStats a)" and "key st = K" for st
  proof -
    from that(1) a(3) obtain k items where "st = statOf cfg (k, items)" by auto
    with that(2) assms show ?thesis
      by (simp add: key_statOf statOf_override)
  qed
  have i: "i_Proxy i = toFixed 2 v \<and> method (i_ProxyHover i) = ''override''"
    if "i \<in> set (issues a)" and "keyFor cfg (i_g i) = K" for i
  proof -
    from that(1) a(2) obtain k items d where c: "i = classify cfg (statOf cfg (k, items)) d"
      "(k, items) \<in> set (bucketsOf cfg (enrichRows rows))" "d \<in> set items"
      by auto
    have "keyFor cfg (line_g d) = k" using c(2,3) by (rule bucketsOf_key)
    with that(2) c(1) have "k = K" by (simp add: classify_fields)
    with assms c(1) show ?thesis
      by (simp add: classify_fields statOf_override toFixed_idem)
  qed
  from a(1) s i show ?thesis by blast
qed

text \<open>
  Claim C3.  The deviation percentage is 0 when the proxy is 0, and (the threshold being at
  least 0; the slider keeps it between 1 and 30) every line of a group whose proxy is 0 is
  reported with deviation 0 and the status "Within expected range"; the analysis returns.
\<close>

theorem C3_zero_proxy_guard:
  assumes "0 \<le> threshold cfg"
  shows "percentDelta v 0 = 0
       \<and> (\<exists>a. analyze cfg rows = Some a
             \<and> (\<forall>st\<in>set (groupedStats a). \<forall>i\<in>set (issues a).
                   keyFor cfg (i_g i) = key st \<and> proxy st = 0 \<longrightarrow>
                     i_DeviationPct i = 0 \<and> i_Status i = ''Within expected range''))"
proof -
  from analyze_spec [of cfg rows] obtain a where a: "analyze cfg rows = Some a"
    "set (issues a) =
       {classify cfg (statOf cfg (k, items)) d | k items d.
          (k, items) \<in> set (bucketsOf cfg (enrichRows rows)) \<and> d \<in> set items}"
    "set (groupedStats a) = statOf cfg ` set (bucketsOf cfg (enrichRows rows))"
    by blast
  have "i_DeviationPct i = 0 \<and> i_Status i = ''Within expected range''"
    if "st \<in> set (groupedStats a)" and "i \<in> set (issues a)"
      and "keyFor cfg (i_g i) = key st" and "proxy st = 0" for st i
  proof -
    from that(1) a(3) obtain k items where st: "st = statOf cfg (k, items)"
      "(k, items) \<in> set (bucketsOf cfg (enrichRows rows))" by auto
    from that(2) a(2) obtain k' items' d where c: "i = classify cfg (statOf cfg (k', items')) d"
      "(k', items') \<in> set (bucketsOf cfg (enrichRows rows))" "d \<in> set items'"
      by auto
    have "statOf cfg (k', items') = st"
      unfolding st(1) using st(2) c(2,3) that(3) [unfolded c(1) st(1)] by (rule issue_of_group)
    with c(1) have "i = classify cfg st d" by simp
    with classify_zero_proxy [OF assms that(4)] show ?thesis by simp
  qed
  with a(1) show ?thesis by (auto simp: percentDelta_def)
qed


lemma topValues_mkStat:
  "topValues (mkStat cfg k sample items) = topValuesOf (map (metricOf cfg) items)"
  by (simp add: mkStat_def Let_def)

lemma topValuesOf_sorted: "sorted_wrt freqBefore (topValuesOf metricAll)"
proof -
  have "sorted_wrt (\<lambda>a b. countCmp a b \<le> 0)
          (js_sort countCmp (d3_rollup (map round2 metricAll) length (\<lambda>v. v)))"
    by (rule sorted_js_sort) (auto simp: countCmp_def)
  moreover have "(\<lambda>a b. countCmp a b \<le> 0) = freqBefore"
    by (auto simp: countCmp_def freqBefore_def fun_eq_iff)
  ultimately show ?thesis by (simp add: topValuesOf_def)
qed

lemma topValuesOf_stable:
  "filter (\<lambda>e. snd e = c) (topValuesOf metricAll) =
   filter (\<lambda>e. snd e = c)
     (map (\<lambda>v. (v, count_list (map round2 metricAll) v)) (uniq (map round2 metricAll)))"
proof -
  have "filter (\<lambda>e. snd e = c) (js_sort countCmp xs) = filter (\<lambda>e. snd e = c) xs" for xs
    by (rule filter_js_sort) (simp add: countCmp_def)
  then show ?thesis
    by (simp add: topValuesOf_def d3_rollup_length)
qed

text \<open>
  Claim C5, as stated, fails: for a group whose metric values are 1 and 2, each once, the
  frequency table lists 1 before 2, so entries of equal frequency are not in descending order
  of value.
\<close>

theorem C5_counterexample:
  "map (metricOf (exampleConfig Paid)) (enrichRows tieRows) = [1, 2]
   \<and> topValuesOf [1, 2] = [(1, 1), (2, 1)]
   \<and> \<not> sorted_wrt ranksBefore (topValuesOf [1, 2])"
proof -
  have a: "map (metricOf (exampleConfig Paid)) (enrichRows tieRows) = [1, 2]" by code_simp
  have b: "topValuesOf [1, 2] = [(1, 1), (2, 1)]" by code_simp
  have c: "\<not> sorted_wrt ranksBefore [(1, 1), (2, 1)]" by (simp add: ranksBefore_def)
  from a b c show ?thesis by simp
qed

text \<open>
  Claim C5, amended.  The frequency table of a group is built from the unfiltered metric
  list rounded to cents, holds every value with its frequency, and is ranked by frequency
  descending; entries of equal frequency stand in the order in which their values first
  occur in the metric list.
\<close>

theorem C5_topValues_ranking:
  "topValues (mkStat cfg k sample items) = topValuesOf (map (metricOf cfg) items)
   \<and> sorted_wrt freqBefore (topValuesOf metricAll)
   \<and> set (topValuesOf metricAll) =
       (\<lambda>v. (v, count_list (map round2 metricAll) v)) ` set (map round2 metricAll)
   \<and> (\<forall>c. filter (\<lambda>e. snd e = c) (topValuesOf metricAll) =
            filter (\<lambda>e. snd e = c)
              (map (\<lambda>v. (v, count_list (map round2 metricAll) v)) (uniq (map round2 metricAll))))"
proof -
  have "set (topValuesOf metricAll) =
       (\<lambda>v. (v, count_list (map round2 metricAll) v)) ` set (map round2 metricAll)"
    by (simp add: topValuesOf_def set_js_sort d3_rollup_length uniq_set)
  with topValues_mkStat topValuesOf_sorted topValuesOf_stable show ?thesis by blast
qed

theorem C5_topValues_ranking_witness:
  "topValues (mkStat (exampleConfig Paid) ''k'' (hd (enrichRows tieRows)) (enrichRows tieRows)) =
     topValuesOf (map (metricOf (exampleConfig Paid)) (enrichRows tieRows))
   \<and> sorted_wrt freqBefore (topValuesOf [1, 2, 2, 1, 3, 5, 5])
   \<and> topValuesOf [1, 2, 2, 1, 3, 5, 5] = [(1, 2), (2, 2), (5, 2), (3, 1)]"
proof -
  have "topValuesOf [1, 2, 2, 1, 3, 5, 5] = [(1, 2), (2, 2), (5, 2), (3, 1)]" by code_simp
  with C5_topValues_ranking [of "exampleConfig Paid" "''k''" "hd (enrichRows tieRows)"
      "enrichRows tieRows" "[1, 2, 2, 1, 3, 5, 5]"]
  show ?thesis by blast
qed

subsection \<open>Denials\<close>




subsection \<open>Unpaid patients\<close>








subsection \<open>Keys\<close>

lemma d3_group_two:
  "f x = f y \<Longrightarrow> d3_group [x, y] f = [(f x, [x, y])]"
  by (simp add: d3_group_def)

lemma js_sort_single: "js_sort cmp [x] = [x]"
  by (simp add: js_sort_def)

lemma key_rows_eval:
  "enrichRows [keyRowA, keyRowB] = [enrichRow 0 keyRowA, enrichRow 1 keyRowB]"
  "line_g (enrichRow 0 keyRowA) \<noteq> line_g (enrichRow 1 keyRowB)"
  "buildKey (line_g (enrichRow 0 keyRowA)) = buildKey (line_g (enrichRow 1 keyRowB))"
  "buildKeyNoUnits (line_g (enrichRow 0 keyRowA)) = buildKeyNoUnits (line_g (enrichRow 1 keyRowB))"
  "Insurance (line_g (enrichRow 0 keyRowA)) = ''Acme|X''"
  "Insurance (line_g (enrichRow 1 keyRowB)) = ''Acme''"
  by code_simp+

text \<open>
  Claim C10.  The key is not injective on the grouping attributes: the canonical lines of
  two rows, one with payer \<open>Acme|X\<close> and procedure code 1, the other with payer \<open>Acme\<close> and
  procedure code \<open>X|1\<close>, have different grouping attributes and the same key, with and
  without units, and the analysis puts both lines into one group.
\<close>

theorem C10_key_not_injective:
  "line_g (enrichRow 0 keyRowA) \<noteq> line_g (enrichRow 1 keyRowB)
   \<and> Insurance (line_g (enrichRow 0 keyRowA)) = ''Acme|X''
   \<and> Insurance (line_g (enrichRow 1 keyRowB)) = ''Acme''
   \<and> buildKey (line_g (enrichRow 0 keyRowA)) = buildKey (line_g (enrichRow 1 keyRowB))
   \<and> buildKeyNoUnits (line_g (enrichRow 0 keyRowA)) = buildKeyNoUnits (line_g (enrichRow 1 keyRowB))
   \<and> enrichRows [keyRowA, keyRowB] = [enrichRow 0 keyRowA, enrichRow 1 keyRowB]
   \<and> (\<exists>a st. analyze cfg [keyRowA, keyRowB] = Some a
          \<and> groupedStats a = [st] \<and> n st = 2
          \<and> map fst (groupsMap a) = [keyFor cfg (line_g (enrichRow 0 keyRowA))])"
proof -
  let ?dA = "enrichRow 0 keyRowA" and ?dB = "enrichRow 1 keyRowB"
  have k: "keyFor cfg (line_g ?dA) = keyFor cfg (line_g ?dB)"
    using key_rows_eval(3,4) by (simp add: keyFor_def)
  have b: "bucketsOf cfg (enrichRows [keyRowA, keyRowB]) = [(keyFor cfg (line_g ?dA), [?dA, ?dB])]"
    unfolding bucketsOf_def key_rows_eval(1) using k by (rule d3_group_two)
  from analyze_spec [of cfg "[keyRowA, keyRowB]"] obtain a where a:
    "analyze cfg [keyRowA, keyRowB] = Some a"
    "groupedStats a = js_sort (statCmp cfg) (map (statOf cfg) (bucketsOf cfg (enrichRows [keyRowA, keyRowB])))"
    "groupsMap a = map (\<lambda>b. (fst b, snd b, statOf cfg b)) (bucketsOf cfg (enrichRows [keyRowA, keyRowB]))"
    by blast
  let ?st = "statOf cfg (keyFor cfg (line_g ?dA), [?dA, ?dB])"
  have gs: "groupedStats a = [?st]"
    unfolding a(2) b by (simp add: js_sort_single)
  have nst: "n ?st = 2"
    by (simp add: statOf_def mkStat_def Let_def)
  have mf: "map fst (groupsMap a) = [keyFor cfg (line_g ?dA)]"
    unfolding a(3) b by simp
  have ex: "\<exists>a st. analyze cfg [keyRowA, keyRowB] = Some a
          \<and> groupedStats a = [st] \<and> n st = 2
          \<and> map fst (groupsMap a) = [keyFor cfg (line_g (enrichRow 0 keyRowA))]"
    by (intro exI [of _ a] exI [of _ ?st] conjI a(1) gs nst mf)
  show ?thesis
    by (intro conjI key_rows_eval ex)
qed

subsection \<open>The properties on the example data\<close>

lemma override_eval:
  "map_option (\<lambda>a. map (\<lambda>i. (keyFor overrideConfig (i_g i) = overrideKey, i_Proxy i, method (i_ProxyHover i)))
                  (issues a))
     (analyze overrideConfig mixedRows) =
   Some [(True, 45, ''override''), (True, 45, ''override''), (True, 45, ''override''),
         (True, 45, ''override'')]"
  by code_simp

theorem C2_override_precedence_witness:
  "overrides overrideConfig overrideKey = Some (Num 45)
   \<and> (\<exists>a. analyze overrideConfig mixedRows = Some a
          \<and> (\<forall>st\<in>set (groupedStats a). key st = overrideKey \<longrightarrow>
                proxy st = toFixed 2 45 \<and> method st = ''override'')
          \<and> (\<forall>i\<in>set (issues a). keyFor overrideConfig (i_g i) = overrideKey \<longrightarrow>
                i_Proxy i = toFixed 2 45 \<and> method (i_ProxyHover i) = ''override''))
   \<and> map_option (\<lambda>a. map (\<lambda>i. (keyFor overrideConfig (i_g i) = overrideKey, i_Proxy i, method (i_ProxyHover i)))
                  (issues a))
       (analyze overrideConfig mixedRows) =
      Some [(True, 45, ''override''), (True, 45, ''override''), (True, 45, ''override''),
            (True, 45, ''override'')]"
proof -
  have h: "overrides overrideConfig overrideKey = Some (Num 45)"
    by (simp add: overrideConfig_def)
  from h C2_override_precedence [OF h, of mixedRows] override_eval show ?thesis
    by (intro conjI)
qed

lemma zero_eval:
  "map_option (\<lambda>a. map (\<lambda>i. (proxy (i_ProxyHover i), i_Metric i, i_DeviationPct i, i_Status i)) (issues a))
     (analyze (exampleConfig Paid) zeroRows) =
   Some [(0, 0, 0, ''Within expected range''), (0, 0, 0, ''Within expected range''),
         (0, 0, 0, ''Within expected range''), (0, 50, 0, ''Within expected range'')]"
  by code_simp

theorem C3_zero_proxy_guard_witness:
  "0 \<le> threshold (exampleConfig Paid)
   \<and> percentDelta 50 0 = 0
   \<and> (\<exists>a. analyze (exampleConfig Paid) zeroRows = Some a
          \<and> (\<forall>st\<in>set (groupedStats a). \<forall>i\<in>set (issues a).
                keyFor (exampleConfig Paid) (i_g i) = key st \<and> proxy st = 0 \<longrightarrow>
                  i_DeviationPct i = 0 \<and> i_Status i = ''Within expected range''))
   \<and> map_option (\<lambda>a. map (\<lambda>i. (proxy (i_ProxyHover i), i_Metric i, i_DeviationPct i, i_Status i)) (issues a))
       (analyze (exampleConfig Paid) zeroRows) =
      Some [(0, 0, 0, ''Within expected range''), (0, 0, 0, ''Within expected range''),
            (0, 0, 0, ''Within expected range''), (0, 50, 0, ''Within expected range'')]"
proof -
  have h: "0 \<le> threshold (exampleConfig Paid)"
    by (simp add: exampleConfig_def)
  from C3_zero_proxy_guard [OF h, of 50 zeroRows] have
    "percentDelta 50 0 = 0"
    "\<exists>a. analyze (exampleConfig Paid) zeroRows = Some a
          \<and> (\<forall>st\<in>set (groupedStats a). \<forall>i\<in>set (issues a).
                keyFor (exampleConfig Paid) (i_g i) = key st \<and> proxy st = 0 \<longrightarrow>
                  i_DeviationPct i = 0 \<and> i_Status i = ''Within expected range'')"
    by (rule conjunct1, rule conjunct2)
  with h zero_eval show ?thesis
    by (intro conjI)
qed







theorem C10_key_not_injective_witness:
  "buildKey (line_g (enrichRow 0 keyRowA)) = ''Acme|X|1|11|'' @ emDash @ ''|1''
   \<and> buildKey (line_g (enrichRow 1 keyRowB)) = ''Acme|X|1|11|'' @ emDash @ ''|1''
   \<and> (\<exists>a st. analyze (exampleConfig Paid) [keyRowA, keyRowB] = Some a
          \<and> groupedStats a = [st] \<and> n st = 2
          \<and> map fst (groupsMap a) = [keyFor (exampleConfig Paid) (line_g (enrichRow 0 keyRowA))])"
proof -
  have a: "buildKey (line_g (enrichRow 0 keyRowA)) = ''Acme|X|1|11|'' @ emDash @ ''|1''" by code_simp
  have b: "buildKey (line_g (enrichRow 1 keyRowB)) = ''Acme|X|1|11|'' @ emDash @ ''|1''" by code_simp
  from C10_key_not_injective [of "exampleConfig Paid"] have
    "\<exists>a st. analyze (exampleConfig Paid) [keyRowA, keyRowB] = Some a
          \<and> groupedStats a = [st] \<and> n st = 2
          \<and> map fst (groupsMap a) = [keyFor (exampleConfig Paid) (line_g (enrichRow 0 keyRowA))]"
    by (elim conjE)
  with a b show ?thesis by (intro conjI)
qed

subsection \<open>Payer names\<close>

















end
